theory Spec2Isabelle
  imports Main
begin

section \<open>Data model\<close>

text \<open>
  The moderation manager of \<^verbatim>\<open>moderation/__init__.py\<close> works on three stores: its own
  registry \<^verbatim>\<open>_registered_models\<close>, the tables of the moderated model classes, and the
  table of \<^verbatim>\<open>ModeratedObject\<close> rows. A model class is identified by its name. A model
  instance carries its class, its primary key (\<^verbatim>\<open>None\<close> before the first save) and the
  values of its other fields.
\<close>

type_synonym model_class = string
type_synonym fields = "(string \<times> string) list"

record model_instance =
  cls :: model_class
  pk :: "nat option"
  vals :: fields

datatype moderation_status =
  MODERATION_STATUS_PENDING | MODERATION_STATUS_APPROVED | MODERATION_STATUS_REJECTED

text \<open>
  A \<^verbatim>\<open>ModeratedObject\<close> row: \<open>mo_id\<close> is its own primary key (\<^verbatim>\<open>None\<close> until it is
  saved), \<open>content_type\<close> and \<open>object_pk\<close> are the generic foreign key to the moderated
  instance, \<open>changed_object\<close> is the serialized instance.
\<close>

record moderated_object =
  mo_id :: "nat option"
  content_type :: model_class
  object_pk :: "nat option"
  changed_object :: model_instance
  moderation_status :: moderation_status

datatype error =
  RegistrationError | AttributeError | KeyError | ObjectDoesNotExist | MultipleObjectsReturned

text \<open>The class attributes of \<^verbatim>\<open>GenericModerator\<close>, and of a class given in its place.\<close>

record moderator_class =
  subclasses_GenericModerator :: bool
  manager_names :: "string list"
  auto_approve_for_staff :: bool
  auto_approve_for_groups :: "string list option"
  auto_reject_for_groups :: "string list option"
  notify_moderator :: bool
  notify_user :: bool

definition GenericModerator :: moderator_class where
  "GenericModerator =
     \<lparr>subclasses_GenericModerator = True, manager_names = [''objects''],
      auto_approve_for_staff = True, auto_approve_for_groups = None,
      auto_reject_for_groups = None, notify_moderator = True, notify_user = True\<rparr>"

text \<open>An instance of a moderator class: what \<^verbatim>\<open>__init__\<close> adds to the class attributes.\<close>

record moderator =
  options :: moderator_class
  moderator_model_class :: model_class
  base_managers :: "(string \<times> string) list"

text \<open>
  Every storage operation and every notification is appended to a trace, so that the
  number of reads, writes and mails of a handler can be counted.
\<close>

datatype effect =
  EntityGet model_class "nat option"
| EntitySave model_instance
| RecordGet "nat option"
| RecordSave moderated_object
| InformModerator model_instance
| SendMail model_instance

record state =
  registered_models :: "model_class \<rightharpoonup> moderator"
  class_attrs :: "model_class \<Rightarrow> string \<rightharpoonup> string"
  pre_save_receivers :: "model_class list"
  post_save_receivers :: "model_class list"
  db :: "(model_class \<times> nat) \<rightharpoonup> fields"
  pk_seq :: nat
  moderated_objects :: "moderated_object list"
  trace :: "effect list"

definition log :: "effect \<Rightarrow> state \<Rightarrow> state" where
  "log e s = s\<lparr>trace := trace s @ [e]\<rparr>"

section \<open>Storage operations of the framework\<close>

text \<open>
  \<^verbatim>\<open>Model.objects.get\<close> of the framework returns the single matching row and raises
  \<^verbatim>\<open>DoesNotExist\<close> (a subclass of \<^verbatim>\<open>ObjectDoesNotExist\<close>) for none and
  \<^verbatim>\<open>MultipleObjectsReturned\<close> for more than one.
\<close>

definition get_single :: "'a list \<Rightarrow> error + 'a" where
  "get_single xs =
     (case xs of [] \<Rightarrow> Inl ObjectDoesNotExist
      | [x] \<Rightarrow> Inr x
      | _ \<Rightarrow> Inl MultipleObjectsReturned)"

text \<open>\<^verbatim>\<open>ModeratedObject.objects.get(object_pk=pk)\<close>: the lookup is by \<open>object_pk\<close> alone.\<close>

definition ModeratedObject_objects_get :: "nat option \<Rightarrow> state \<Rightarrow> (error + moderated_object) \<times> state" where
  "ModeratedObject_objects_get k s =
     (get_single (filter (\<lambda>m. object_pk m = k) (moderated_objects s)), log (RecordGet k) s)"

text \<open>
  The generic relation \<^verbatim>\<open>_moderated_object\<close> that \<^verbatim>\<open>_add_moderated_object_to_class\<close>
  adds, read through the property \<^verbatim>\<open>moderated_object\<close>: the rows whose content type and
  \<open>object_pk\<close> are those of the instance, and \<^verbatim>\<open>.get()\<close> on them.
\<close>

definition get_modarated_object :: "model_instance \<Rightarrow> state \<Rightarrow> (error + moderated_object) \<times> state" where
  "get_modarated_object obj s =
     (get_single (filter (\<lambda>m. content_type m = cls obj \<and> object_pk m = pk obj)
                    (moderated_objects s)),
      log (RecordGet (pk obj)) s)"

text \<open>
  \<^verbatim>\<open>moderated_object.save()\<close>: a row without a primary key is inserted (the table is
  append-only here, so the new key is the row's position), a row with one replaces the
  stored row.
\<close>

definition ModeratedObject_save :: "moderated_object \<Rightarrow> state \<Rightarrow> state" where
  "ModeratedObject_save m s =
     (case mo_id m of
        None \<Rightarrow>
          (let m' = m\<lparr>mo_id := Some (length (moderated_objects s))\<rparr>
           in log (RecordSave m') (s\<lparr>moderated_objects := moderated_objects s @ [m']\<rparr>))
      | Some i \<Rightarrow>
          log (RecordSave m) (s\<lparr>moderated_objects := (moderated_objects s)[i := m]\<rparr>))"

text \<open>
  The row write of \<^verbatim>\<open>Model.save()\<close> on a moderated instance: an instance without a
  primary key takes the next value of the database sequence. The re-dispatch of the
  save signals by the framework is in \<open>model_save\<close> below.
\<close>

definition save_base :: "model_instance \<Rightarrow> state \<Rightarrow> model_instance \<times> bool \<times> state" where
  "save_base obj s =
     (case pk obj of
        None \<Rightarrow>
          (let k = Suc (pk_seq s); obj' = obj\<lparr>pk := Some k\<rparr>
           in (obj', True,
               log (EntitySave obj') (s\<lparr>db := (db s)((cls obj, k) \<mapsto> vals obj), pk_seq := k\<rparr>)))
      | Some k \<Rightarrow>
          (obj, db s (cls obj, k) = None,
           log (EntitySave obj)
             (s\<lparr>db := (db s)((cls obj, k) \<mapsto> vals obj), pk_seq := max k (pk_seq s)\<rparr>)))"

text \<open>
  Modelled from the spec: \<^verbatim>\<open>moderation.managers.ModerationObjectsManager\<close>, the class
  of \<^verbatim>\<open>_default_manager\<close> after registration, is missing. Section 4.3 of the spec says of
  the moderated (default) read that it "returns records as they exist in underlying
  storage"; a key without a row raises \<^verbatim>\<open>DoesNotExist\<close>.
\<close>

definition default_manager_get :: "model_class \<Rightarrow> nat option \<Rightarrow> state \<Rightarrow> (error + model_instance) \<times> state" where
  "default_manager_get c k s =
     ((case k of
         None \<Rightarrow> Inl ObjectDoesNotExist
       | Some n \<Rightarrow>
           (case db s (c, n) of
              None \<Rightarrow> Inl ObjectDoesNotExist
            | Some v \<Rightarrow> Inr \<lparr>cls = c, pk = Some n, vals = v\<rparr>)),
      log (EntityGet c k) s)"

definition moderated_read :: "state \<Rightarrow> model_class \<Rightarrow> nat \<Rightarrow> fields option" where
  "moderated_read s c n = db s (c, n)"

section \<open>ModeratedObject\<close>

text \<open>
  Modelled from the spec: \<^verbatim>\<open>moderation.models.ModeratedObject\<close> is missing. The
  constructor call \<^verbatim>\<open>ModeratedObject(content_object=obj)\<close> makes an unsaved row that
  points to \<open>obj\<close>. Section 4.1 of the spec gives its contents where no auto-approve
  rule is satisfied (the handlers hand no acting context to the constructor): "Pending
  with pendingSnapshot = same values". The pending snapshot of the spec is the field
  \<open>changed_object\<close> of the code; the approved values have no field of their own, they
  are the row of the moderated model.
\<close>

definition ModeratedObject_init :: "model_instance \<Rightarrow> moderated_object" where
  "ModeratedObject_init content_object =
     \<lparr>mo_id = None, content_type = cls content_object, object_pk = pk content_object,
      changed_object = content_object, moderation_status = MODERATION_STATUS_PENDING\<rparr>"

text \<open>
  Modelled from the spec: \<^verbatim>\<open>ModeratedObject._is_not_equal_instance\<close> is missing. The
  spec (4.1) compares the stored snapshot with the instance "by field-wise equality";
  the primary key is one of the fields.
\<close>

definition is_not_equal_instance :: "moderated_object \<Rightarrow> model_instance \<Rightarrow> bool" where
  "is_not_equal_instance self inst \<longleftrightarrow>
     pk (changed_object self) \<noteq> pk inst \<or> vals (changed_object self) \<noteq> vals inst"

section \<open>GenericModerator\<close>

text \<open>
  The attributes of a model class are a map from attribute names to the class name of
  the value; \<^verbatim>\<open>hasattr\<close> is definedness of the map.
\<close>

definition get_base_manager :: "state \<Rightarrow> model_class \<Rightarrow> string \<Rightarrow> string" where
  "get_base_manager s model_class manager_name =
     (case class_attrs s model_class manager_name of
        Some base_manager \<Rightarrow> base_manager
      | None \<Rightarrow> ''Manager'')"

definition get_base_managers :: "state \<Rightarrow> moderator_class \<Rightarrow> model_class \<Rightarrow> (string \<times> string) list" where
  "get_base_managers s mc model_class =
     map (\<lambda>manager_name. (manager_name, get_base_manager s model_class manager_name))
       (manager_names mc)"

definition moderator_init :: "moderator_class \<Rightarrow> model_class \<Rightarrow> state \<Rightarrow> moderator" where
  "moderator_init mc model_class s =
     \<lparr>options = mc, moderator_model_class = model_class,
      base_managers = get_base_managers s mc model_class\<rparr>"

text \<open>
  \<^verbatim>\<open>send\<close> reads \<^verbatim>\<open>content_object.moderated_object\<close> twice to build the context, each
  read a \<^verbatim>\<open>get\<close> on the generic relation, then renders and mails. Rendering and mail
  delivery belong to the framework and are one \<open>SendMail\<close> effect.
\<close>

definition send :: "model_instance \<Rightarrow> state \<Rightarrow> error option \<times> state" where
  "send content_object s =
     (case get_modarated_object content_object s of
        (Inl e, s1) \<Rightarrow> (Some e, s1)
      | (Inr m1, s1) \<Rightarrow>
          (case get_modarated_object content_object s1 of
             (Inl e, s2) \<Rightarrow> (Some e, s2)
           | (Inr m2, s2) \<Rightarrow> (None, log (SendMail content_object) s2)))"

definition inform_moderator :: "moderator \<Rightarrow> model_instance \<Rightarrow> state \<Rightarrow> error option \<times> state" where
  "inform_moderator self content_object s =
     (let s1 = log (InformModerator content_object) s
      in if notify_moderator (options self) then send content_object s1 else (None, s1))"

section \<open>ModerationManager\<close>

definition add_to_class :: "model_class \<Rightarrow> string \<Rightarrow> string \<Rightarrow> state \<Rightarrow> state" where
  "add_to_class c name v s = s\<lparr>class_attrs := (class_attrs s)(c := (class_attrs s c)(name \<mapsto> v))\<rparr>"

text \<open>Django connects a receiver once for a sender: a second \<^verbatim>\<open>connect\<close> changes nothing.\<close>

definition connect_signals :: "model_class \<Rightarrow> state \<Rightarrow> state" where
  "connect_signals model_class s =
     s\<lparr>pre_save_receivers :=
          (if model_class \<in> set (pre_save_receivers s) then pre_save_receivers s
           else pre_save_receivers s @ [model_class]),
       post_save_receivers :=
          (if model_class \<in> set (post_save_receivers s) then post_save_receivers s
           else post_save_receivers s @ [model_class])\<rparr>"

definition add_moderated_object_to_class :: "model_class \<Rightarrow> state \<Rightarrow> state" where
  "add_moderated_object_to_class model_class s =
     add_to_class model_class ''moderated_object'' ''property''
       (add_to_class model_class ''_moderated_object'' ''GenericRelation'' s)"

fun add_managers :: "model_class \<Rightarrow> (string \<times> string) list \<Rightarrow> state \<Rightarrow> state" where
  "add_managers model_class [] s = s"
| "add_managers model_class ((manager_name, mgr_class) # rest) s =
     add_managers model_class rest
       (add_to_class model_class manager_name (''ModerationObjectsManager('' @ mgr_class @ '')'')
          (add_to_class model_class (''unmoderated_'' @ manager_name) mgr_class s))"

definition and_fields_to_model_class :: "moderator \<Rightarrow> state \<Rightarrow> state" where
  "and_fields_to_model_class moderator_class_instance s =
     (let model_class = moderator_model_class moderator_class_instance
      in add_moderated_object_to_class model_class
           (add_managers model_class (base_managers moderator_class_instance) s))"

definition register :: "model_class \<Rightarrow> moderator_class option \<Rightarrow> state \<Rightarrow> error option \<times> state" where
  "register model_class moderator_class s =
     (if registered_models s model_class \<noteq> None then (Some RegistrationError, s)
      else
        (let mc = (case moderator_class of None \<Rightarrow> GenericModerator | Some m \<Rightarrow> m)
         in if \<not> subclasses_GenericModerator mc then (Some AttributeError, s)
            else
              (let mi = moderator_init mc model_class s;
                   s1 = s\<lparr>registered_models := (registered_models s)(model_class \<mapsto> mi)\<rparr>;
                   s2 = and_fields_to_model_class mi s1
               in (None, connect_signals model_class s2))))"

subsection \<open>The save handlers\<close>

text \<open>
  A handler returns the exception it raises, if any, and the state it leaves. Python's
  \<^verbatim>\<open>if instance.pk:\<close> is false for \<^verbatim>\<open>None\<close> and for the key \<open>0\<close>.
\<close>

definition truthy :: "nat option \<Rightarrow> bool" where
  "truthy k \<longleftrightarrow> (case k of None \<Rightarrow> False | Some n \<Rightarrow> n \<noteq> 0)"

text \<open>
  \<^verbatim>\<open>_copy_model_instance\<close> builds a new instance of the same class from the values of the
  instance's own fields, the primary key among them.
\<close>

definition copy_model_instance :: "model_instance \<Rightarrow> model_instance" where
  "copy_model_instance obj = \<lparr>cls = cls obj, pk = pk obj, vals = vals obj\<rparr>"

text \<open>
  \<^verbatim>\<open>_get_or_create_moderated_object\<close>: the read of the unchanged object is outside the
  \<^verbatim>\<open>try\<close>, so its \<^verbatim>\<open>DoesNotExist\<close> is raised; inside, only \<^verbatim>\<open>ObjectDoesNotExist\<close> is
  caught.
\<close>

definition get_or_create_moderated_object :: "model_instance \<Rightarrow> state \<Rightarrow> (error + moderated_object) \<times> state" where
  "get_or_create_moderated_object inst s =
     (let k = pk inst
      in case default_manager_get (cls inst) k s of
           (Inl e, s1) \<Rightarrow> (Inl e, s1)
         | (Inr unchanged_obj, s1) \<Rightarrow>
             (case ModeratedObject_objects_get k s1 of
                (Inr moderated_object, s2) \<Rightarrow>
                  (Inr (if is_not_equal_instance moderated_object inst
                        then moderated_object\<lparr>changed_object := unchanged_obj\<rparr>
                        else moderated_object), s2)
              | (Inl e, s2) \<Rightarrow>
                  (if e = ObjectDoesNotExist
                   then (Inr ((ModeratedObject_init unchanged_obj)\<lparr>changed_object := unchanged_obj\<rparr>), s2)
                   else (Inl e, s2))))"

definition pre_save_handler :: "model_class \<Rightarrow> model_instance \<Rightarrow> state \<Rightarrow> error option \<times> state" where
  "pre_save_handler sender inst s =
     (if truthy (pk inst) then
        (case get_or_create_moderated_object inst s of
           (Inl e, s1) \<Rightarrow> (Some e, s1)
         | (Inr moderated_object, s1) \<Rightarrow> (None, ModeratedObject_save moderated_object s1))
      else (None, s))"

text \<open>
  In \<^verbatim>\<open>post_save_handler\<close> the call \<^verbatim>\<open>moderated_object.changed_object.save()\<close> is the row
  write \<open>save_base\<close>. The framework sends the two save signals for this inner save
  too; that round finds the stored record equal to the instance being saved, so it saves
  the record once more as it is and does nothing else (\<open>inner_save_round_idle\<close> below). It
  is left out of the handler.
\<close>

definition post_save_handler :: "model_class \<Rightarrow> model_instance \<Rightarrow> bool \<Rightarrow> state \<Rightarrow> error option \<times> state" where
  "post_save_handler sender inst created s =
     (let k = pk inst
      in case registered_models s sender of
           None \<Rightarrow> (Some KeyError, s)
         | Some moderator_instance \<Rightarrow>
             (if created then
                (case default_manager_get sender k s of
                   (Inl e, s1) \<Rightarrow> (Some e, s1)
                 | (Inr old_object, s1) \<Rightarrow>
                     inform_moderator moderator_instance inst
                       (ModeratedObject_save (ModeratedObject_init old_object) s1))
              else
                (case ModeratedObject_objects_get k s of
                   (Inl e, s1) \<Rightarrow> (Some e, s1)
                 | (Inr moderated_object, s1) \<Rightarrow>
                     (if is_not_equal_instance moderated_object inst then
                        (let copied_instance = copy_model_instance inst;
                             s2 = snd (snd (save_base (changed_object moderated_object) s1));
                             s3 = ModeratedObject_save
                                    (moderated_object\<lparr>changed_object := copied_instance,
                                       moderation_status := MODERATION_STATUS_PENDING\<rparr>) s2
                         in inform_moderator moderator_instance inst s3)
                      else (None, s1)))))"

text \<open>
  A write of a moderated instance as the framework performs it: the pre-save signal, the
  row write, the post-save signal with the flag \<open>created\<close> of the row write. A signal
  reaches the handler if \<^verbatim>\<open>_connect_signals\<close> connected it for the sender, the class of
  the instance. An exception of the pre-save receiver aborts the write.
\<close>

definition send_pre_save :: "model_instance \<Rightarrow> state \<Rightarrow> error option \<times> state" where
  "send_pre_save inst s =
     (if cls inst \<in> set (pre_save_receivers s) then pre_save_handler (cls inst) inst s
      else (None, s))"

definition send_post_save :: "model_instance \<Rightarrow> bool \<Rightarrow> state \<Rightarrow> error option \<times> state" where
  "send_post_save inst created s =
     (if cls inst \<in> set (post_save_receivers s) then post_save_handler (cls inst) inst created s
      else (None, s))"

definition model_save :: "model_instance \<Rightarrow> state \<Rightarrow> error option \<times> state" where
  "model_save inst s =
     (case send_pre_save inst s of
        (Some e, s1) \<Rightarrow> (Some e, s1)
      | (None, s1) \<Rightarrow>
          (case save_base inst s1 of
             (inst', created, s2) \<Rightarrow> send_post_save inst' created s2))"

text \<open>\<^verbatim>\<open>ModerationManager.__init__\<close>: an empty registry; nothing is stored yet.\<close>

definition ModerationManager_init :: state where
  "ModerationManager_init =
     \<lparr>registered_models = Map.empty, class_attrs = (\<lambda>c. Map.empty), pre_save_receivers = [],
      post_save_receivers = [], db = Map.empty, pk_seq = 0, moderated_objects = [],
      trace = []\<rparr>"

section \<open>Observations on the trace\<close>

definition record_writes :: "state \<Rightarrow> nat" where
  "record_writes s = length (filter (\<lambda>e. case e of RecordSave m \<Rightarrow> True | _ \<Rightarrow> False) (trace s))"

definition informs :: "state \<Rightarrow> model_instance list" where
  "informs s = List.map_filter (\<lambda>e. case e of InformModerator x \<Rightarrow> Some x | _ \<Rightarrow> None) (trace s)"

definition mails :: "state \<Rightarrow> model_instance list" where
  "mails s = List.map_filter (\<lambda>e. case e of SendMail x \<Rightarrow> Some x | _ \<Rightarrow> None) (trace s)"

section \<open>Consistency of the two tables\<close>

text \<open>The generic foreign keys of the \<^verbatim>\<open>ModeratedObject\<close> rows, in table order.\<close>

definition record_keys :: "state \<Rightarrow> (model_class \<times> nat option) list" where
  "record_keys s = map (\<lambda>m. (content_type m, object_pk m)) (moderated_objects s)"

text \<open>
  The states the manager can be in: it starts empty, model classes are registered, and
  instances are written through the framework.
\<close>

inductive reachable :: "state \<Rightarrow> bool" where
  reachable_init: "reachable ModerationManager_init"
| reachable_register: "reachable s \<Longrightarrow> reachable (snd (register model_class moderator_class s))"
| reachable_save: "reachable s \<Longrightarrow> reachable (snd (model_save inst s))"

text \<open>
  What holds of the tables in every such state: each \<^verbatim>\<open>ModeratedObject\<close> row points to
  a stored row of its model, no two point to the same one, each carries its position as
  its own key, and the database sequence is at or beyond every key in use.
\<close>

definition tables_ok :: "state \<Rightarrow> bool" where
  "tables_ok s \<longleftrightarrow>
     (\<forall>m \<in> set (moderated_objects s). \<exists>k. object_pk m = Some k \<and> db s (content_type m, k) \<noteq> None)
     \<and> distinct (record_keys s)
     \<and> (\<forall>i < length (moderated_objects s). mo_id (moderated_objects s ! i) = Some i)
     \<and> (\<forall>c k. db s (c, k) \<noteq> None \<longrightarrow> k \<le> pk_seq s)"

section \<open>Auto-approval\<close>

text \<open>
  Modelled from the spec: the source declares the options \<^verbatim>\<open>auto_approve_for_staff\<close>,
  \<^verbatim>\<open>auto_approve_for_groups\<close> and \<^verbatim>\<open>auto_reject_for_groups\<close> on \<^verbatim>\<open>GenericModerator\<close>,
  and the function that evaluates them is missing. Section 4.2 of the spec: "evaluate an
  ordered list of rules against the acting context (e.g., "is staff", "belongs to
  allow-listed group", "belongs to deny-listed group" -- deny-list rules force Pending
  and short-circuit evaluation regardless of other matches). First matching allow rule
  (after no deny rule matches) yields immediate Approved; absence of any match yields
  Pending."
\<close>

record acting_context =
  is_staff :: bool
  groups :: "string list"

datatype rule = DenyGroups "string list" | AllowStaff | AllowGroups "string list"

fun is_deny :: "rule \<Rightarrow> bool" where
  "is_deny (DenyGroups gs) = True"
| "is_deny AllowStaff = False"
| "is_deny (AllowGroups gs) = False"

fun matches :: "rule \<Rightarrow> acting_context \<Rightarrow> bool" where
  "matches (DenyGroups gs) ctx = list_ex (\<lambda>g. g \<in> set gs) (groups ctx)"
| "matches AllowStaff ctx = is_staff ctx"
| "matches (AllowGroups gs) ctx = list_ex (\<lambda>g. g \<in> set gs) (groups ctx)"

fun deny_matches :: "rule list \<Rightarrow> acting_context \<Rightarrow> bool" where
  "deny_matches [] ctx = False"
| "deny_matches (r # rs) ctx = (if is_deny r \<and> matches r ctx then True else deny_matches rs ctx)"

fun allow_matches :: "rule list \<Rightarrow> acting_context \<Rightarrow> bool" where
  "allow_matches [] ctx = False"
| "allow_matches (r # rs) ctx =
     (if \<not> is_deny r \<and> matches r ctx then True else allow_matches rs ctx)"

definition auto_approval :: "rule list \<Rightarrow> acting_context \<Rightarrow> moderation_status" where
  "auto_approval rules ctx =
     (if deny_matches rules ctx then MODERATION_STATUS_PENDING
      else if allow_matches rules ctx then MODERATION_STATUS_APPROVED
      else MODERATION_STATUS_PENDING)"

text \<open>
  Modelled from the spec: the rule list that the three options of a moderator class stand
  for (section 6 of the spec has the registration supply "an auto-approval rule list").
\<close>

definition rule_set :: "moderator_class \<Rightarrow> rule list" where
  "rule_set mc =
     (case auto_reject_for_groups mc of None \<Rightarrow> [] | Some gs \<Rightarrow> [DenyGroups gs])
     @ (if auto_approve_for_staff mc then [AllowStaff] else [])
     @ (case auto_approve_for_groups mc of None \<Rightarrow> [] | Some gs \<Rightarrow> [AllowGroups gs])"

section \<open>Example states\<close>

text \<open>
  A model \<^verbatim>\<open>Entry\<close> registered with the default moderator, and with a moderator class
  that turns the moderator mail off; a new entry, and two edits of the stored entry.
\<close>

definition registered_state :: state where
  "registered_state = snd (register ''Entry'' None ModerationManager_init)"

definition silent_state :: state where
  "silent_state =
     snd (register ''Entry'' (Some (GenericModerator\<lparr>notify_moderator := False\<rparr>))
            ModerationManager_init)"

definition entry_new :: model_instance where
  "entry_new = \<lparr>cls = ''Entry'', pk = None, vals = [(''title'', ''first'')]\<rparr>"

definition entry_stored :: model_instance where
  "entry_stored = \<lparr>cls = ''Entry'', pk = Some 1, vals = [(''title'', ''first'')]\<rparr>"

definition entry_edit :: model_instance where
  "entry_edit = \<lparr>cls = ''Entry'', pk = Some 1, vals = [(''title'', ''second'')]\<rparr>"

definition entry_edit2 :: model_instance where
  "entry_edit2 = \<lparr>cls = ''Entry'', pk = Some 1, vals = [(''title'', ''third'')]\<rparr>"

definition created_state :: state where
  "created_state = snd (model_save entry_new registered_state)"

definition edited_state :: state where
  "edited_state = snd (model_save entry_edit created_state)"

section \<open>Effects of the storage operations\<close>

text \<open>What each operation leaves unchanged, and what it adds to the trace.\<close>

lemmas obs_defs = record_writes_def informs_def mails_def List.map_filter_def

lemma log_simps [simp]:
  "trace (log e s) = trace s @ [e]" "db (log e s) = db s"
  "moderated_objects (log e s) = moderated_objects s"
  "registered_models (log e s) = registered_models s" "pk_seq (log e s) = pk_seq s"
  "pre_save_receivers (log e s) = pre_save_receivers s"
  "post_save_receivers (log e s) = post_save_receivers s"
  by (simp_all add: log_def)

lemma ModeratedObject_save_simps [simp]:
  "db (ModeratedObject_save m s) = db s"
  "registered_models (ModeratedObject_save m s) = registered_models s"
  "pk_seq (ModeratedObject_save m s) = pk_seq s"
  "pre_save_receivers (ModeratedObject_save m s) = pre_save_receivers s"
  "post_save_receivers (ModeratedObject_save m s) = post_save_receivers s"
  "record_writes (ModeratedObject_save m s) = Suc (record_writes s)"
  "informs (ModeratedObject_save m s) = informs s"
  "mails (ModeratedObject_save m s) = mails s"
  by (simp_all add: ModeratedObject_save_def obs_defs Let_def split: option.splits)

lemma ModeratedObject_save_rows:
  "moderated_objects (ModeratedObject_save m s) =
     (case mo_id m of
        None \<Rightarrow> moderated_objects s @ [m\<lparr>mo_id := Some (length (moderated_objects s))\<rparr>]
      | Some i \<Rightarrow> (moderated_objects s)[i := m])"
  by (simp add: ModeratedObject_save_def Let_def split: option.splits)

lemma save_base_simps [simp]:
  "moderated_objects (snd (snd (save_base obj s))) = moderated_objects s"
  "registered_models (snd (snd (save_base obj s))) = registered_models s"
  "pre_save_receivers (snd (snd (save_base obj s))) = pre_save_receivers s"
  "post_save_receivers (snd (snd (save_base obj s))) = post_save_receivers s"
  "record_writes (snd (snd (save_base obj s))) = record_writes s"
  "informs (snd (snd (save_base obj s))) = informs s"
  "mails (snd (snd (save_base obj s))) = mails s"
  by (simp_all add: save_base_def obs_defs Let_def split: option.splits)

lemma save_base_db:
  "db (snd (snd (save_base obj s))) =
     (db s)((cls obj, case pk obj of None \<Rightarrow> Suc (pk_seq s) | Some k \<Rightarrow> k) \<mapsto> vals obj)"
  by (simp add: save_base_def Let_def split: option.splits)

lemma send_simps [simp]:
  "db (snd (send x s)) = db s" "moderated_objects (snd (send x s)) = moderated_objects s"
  "registered_models (snd (send x s)) = registered_models s" "pk_seq (snd (send x s)) = pk_seq s"
  "pre_save_receivers (snd (send x s)) = pre_save_receivers s"
  "post_save_receivers (snd (send x s)) = post_save_receivers s"
  "record_writes (snd (send x s)) = record_writes s" "informs (snd (send x s)) = informs s"
  by (simp_all add: send_def get_modarated_object_def obs_defs split: sum.splits prod.splits)

lemma send_mails:
  "mails (snd (send x s)) = (if fst (send x s) = None then mails s @ [x] else mails s)"
  by (simp add: send_def get_modarated_object_def obs_defs split: sum.splits prod.splits)

lemma send_ok:
  "fst (send x s) = None \<longleftrightarrow>
     (\<exists>m. filter (\<lambda>m. content_type m = cls x \<and> object_pk m = pk x) (moderated_objects s) = [m])"
  by (auto simp add: send_def get_modarated_object_def get_single_def split: sum.splits prod.splits list.splits)

lemma inform_moderator_simps [simp]:
  "db (snd (inform_moderator mi x s)) = db s"
  "moderated_objects (snd (inform_moderator mi x s)) = moderated_objects s"
  "registered_models (snd (inform_moderator mi x s)) = registered_models s"
  "pk_seq (snd (inform_moderator mi x s)) = pk_seq s"
  "pre_save_receivers (snd (inform_moderator mi x s)) = pre_save_receivers s"
  "post_save_receivers (snd (inform_moderator mi x s)) = post_save_receivers s"
  "record_writes (snd (inform_moderator mi x s)) = record_writes s"
  "informs (snd (inform_moderator mi x s)) = informs s @ [x]"
  by (simp_all add: inform_moderator_def Let_def) (simp_all add: obs_defs)

lemma inform_moderator_mails:
  "mails (snd (inform_moderator mi x s)) =
     (if notify_moderator (options mi) \<and> fst (inform_moderator mi x s) = None
      then mails s @ [x] else mails s)"
  by (simp add: inform_moderator_def Let_def send_mails) (simp add: obs_defs)

lemma inform_moderator_ok:
  "fst (inform_moderator mi x s) = None \<longleftrightarrow>
     (notify_moderator (options mi) \<longrightarrow>
       (\<exists>m. filter (\<lambda>m. content_type m = cls x \<and> object_pk m = pk x) (moderated_objects s) = [m]))"
  by (simp add: inform_moderator_def Let_def send_ok)

lemma objects_get_simps [simp]:
  "snd (ModeratedObject_objects_get k s) = log (RecordGet k) s"
  "fst (ModeratedObject_objects_get k s) = get_single (filter (\<lambda>m. object_pk m = k) (moderated_objects s))"
  by (simp_all add: ModeratedObject_objects_get_def)

lemma default_manager_get_simps [simp]:
  "snd (default_manager_get c k s) = log (EntityGet c k) s"
  by (simp_all add: default_manager_get_def)

lemma obs_log [simp]:
  "record_writes (log e s) = record_writes s + (case e of RecordSave m \<Rightarrow> 1 | _ \<Rightarrow> 0)"
  "informs (log e s) = informs s @ (case e of InformModerator x \<Rightarrow> [x] | _ \<Rightarrow> [])"
  "mails (log e s) = mails s @ (case e of SendMail x \<Rightarrow> [x] | _ \<Rightarrow> [])"
  by (simp_all add: obs_defs split: effect.splits)

lemma get_or_create_frame [simp]:
  "db (snd (get_or_create_moderated_object inst s)) = db s"
  "moderated_objects (snd (get_or_create_moderated_object inst s)) = moderated_objects s"
  "registered_models (snd (get_or_create_moderated_object inst s)) = registered_models s"
  "pk_seq (snd (get_or_create_moderated_object inst s)) = pk_seq s"
  "pre_save_receivers (snd (get_or_create_moderated_object inst s)) = pre_save_receivers s"
  "post_save_receivers (snd (get_or_create_moderated_object inst s)) = post_save_receivers s"
  "record_writes (snd (get_or_create_moderated_object inst s)) = record_writes s"
  "informs (snd (get_or_create_moderated_object inst s)) = informs s"
  "mails (snd (get_or_create_moderated_object inst s)) = mails s"
  by (simp_all add: get_or_create_moderated_object_def Let_def default_manager_get_def
      ModeratedObject_objects_get_def split: sum.splits prod.splits option.splits)

lemma pre_save_counts:
  "record_writes (snd (pre_save_handler c inst s)) \<le> Suc (record_writes s)"
  "mails (snd (pre_save_handler c inst s)) = mails s"
  "informs (snd (pre_save_handler c inst s)) = informs s"
  by (simp_all add: pre_save_handler_def split: sum.splits prod.splits)
     (metis get_or_create_frame snd_conv le_SucI order_refl)+


lemma pre_save_handler_unfold:
  "pre_save_handler c inst s =
     (if truthy (pk inst) then
        (case fst (get_or_create_moderated_object inst s) of
           Inl e \<Rightarrow> (Some e, snd (get_or_create_moderated_object inst s))
         | Inr mo \<Rightarrow> (None, ModeratedObject_save mo (snd (get_or_create_moderated_object inst s))))
      else (None, s))"
  by (simp add: pre_save_handler_def split: prod.splits sum.splits)

lemma post_save_handler_unfold:
  "post_save_handler c inst created s =
     (case registered_models s c of
        None \<Rightarrow> (Some KeyError, s)
      | Some mi \<Rightarrow>
          (if created then
             (case fst (default_manager_get c (pk inst) s) of
                Inl e \<Rightarrow> (Some e, log (EntityGet c (pk inst)) s)
              | Inr old_object \<Rightarrow>
                  inform_moderator mi inst
                    (ModeratedObject_save (ModeratedObject_init old_object)
                       (log (EntityGet c (pk inst)) s)))
           else
             (case get_single (filter (\<lambda>m. object_pk m = pk inst) (moderated_objects s)) of
                Inl e \<Rightarrow> (Some e, log (RecordGet (pk inst)) s)
              | Inr m \<Rightarrow>
                  (if is_not_equal_instance m inst then
                     inform_moderator mi inst
                       (ModeratedObject_save
                          (m\<lparr>changed_object := copy_model_instance inst,
                             moderation_status := MODERATION_STATUS_PENDING\<rparr>)
                          (snd (snd (save_base (changed_object m) (log (RecordGet (pk inst)) s)))))
                   else (None, log (RecordGet (pk inst)) s)))))"
  by (simp add: post_save_handler_def Let_def ModeratedObject_objects_get_def default_manager_get_def
      split: option.splits sum.splits)

lemma post_save_handler_created:
  assumes "registered_models s sender = Some mi" and "pk inst = Some k"
    and "db s (sender, k) = Some (vals inst)"
  shows "moderated_objects (snd (post_save_handler sender inst True s)) =
           moderated_objects s @
             [\<lparr>mo_id = Some (length (moderated_objects s)), content_type = sender,
               object_pk = Some k, changed_object = \<lparr>cls = sender, pk = Some k, vals = vals inst\<rparr>,
               moderation_status = MODERATION_STATUS_PENDING\<rparr>]
         \<and> informs (snd (post_save_handler sender inst True s)) = informs s @ [inst]
         \<and> mails (snd (post_save_handler sender inst True s)) =
             (if notify_moderator (options mi) \<and> fst (post_save_handler sender inst True s) = None
              then mails s @ [inst] else mails s)"
  using assms
  by (simp add: post_save_handler_unfold default_manager_get_def
      ModeratedObject_save_rows ModeratedObject_init_def inform_moderator_mails)

lemma post_save_counts:
  "record_writes (snd (post_save_handler c inst created s)) \<le> Suc (record_writes s)"
  "length (mails (snd (post_save_handler c inst created s))) \<le> Suc (length (mails s))"
  "length (informs (snd (post_save_handler c inst created s))) \<le> Suc (length (informs s))"
  by (simp_all add: post_save_handler_def Let_def default_manager_get_def
      ModeratedObject_objects_get_def inform_moderator_mails
      split: option.splits sum.splits prod.splits)

lemma send_pre_save_counts:
  "record_writes (snd (send_pre_save inst s)) \<le> Suc (record_writes s)"
  "mails (snd (send_pre_save inst s)) = mails s"
  "informs (snd (send_pre_save inst s)) = informs s"
  by (simp_all add: send_pre_save_def pre_save_counts)

lemma send_post_save_counts:
  "record_writes (snd (send_post_save inst created s)) \<le> Suc (record_writes s)"
  "length (mails (snd (send_post_save inst created s))) \<le> Suc (length (mails s))"
  "length (informs (snd (send_post_save inst created s))) \<le> Suc (length (informs s))"
  by (simp_all add: send_post_save_def post_save_counts)

lemma model_save_unfold:
  "model_save inst s =
     (if fst (send_pre_save inst s) \<noteq> None then send_pre_save inst s
      else send_post_save (fst (save_base inst (snd (send_pre_save inst s))))
             (fst (snd (save_base inst (snd (send_pre_save inst s)))))
             (snd (snd (save_base inst (snd (send_pre_save inst s))))))"
  by (auto simp: model_save_def split: prod.splits option.splits)

lemma model_save_counts:
  "record_writes (snd (model_save inst s)) \<le> record_writes s + 2"
  "length (mails (snd (model_save inst s))) \<le> Suc (length (mails s))"
  "length (informs (snd (model_save inst s))) \<le> Suc (length (informs s))"
proof -
  let ?s1 = "snd (send_pre_save inst s)"
  let ?sb = "save_base inst ?s1"
  let ?s3 = "snd (send_post_save (fst ?sb) (fst (snd ?sb)) (snd (snd ?sb)))"
  have "record_writes ?s3 \<le> Suc (record_writes (snd (snd ?sb)))"
    by (rule send_post_save_counts)
  then have a: "record_writes ?s3 \<le> record_writes s + 2"
    using send_pre_save_counts(1)[of inst s] by simp
  have "length (mails ?s3) \<le> Suc (length (mails (snd (snd ?sb))))"
    by (rule send_post_save_counts)
  then have b: "length (mails ?s3) \<le> Suc (length (mails s))"
    by (simp add: send_pre_save_counts)
  have "length (informs ?s3) \<le> Suc (length (informs (snd (snd ?sb))))"
    by (rule send_post_save_counts)
  then have c: "length (informs ?s3) \<le> Suc (length (informs s))"
    by (simp add: send_pre_save_counts)
  show "record_writes (snd (model_save inst s)) \<le> record_writes s + 2"
    using a send_pre_save_counts(1)[of inst s] by (simp add: model_save_unfold)
  show "length (mails (snd (model_save inst s))) \<le> Suc (length (mails s))"
    using b by (simp add: model_save_unfold send_pre_save_counts)
  show "length (informs (snd (model_save inst s))) \<le> Suc (length (informs s))"
    using c by (simp add: model_save_unfold send_pre_save_counts)
qed

section \<open>Lookups in the table of moderated objects\<close>

lemma filter_update_single:
  "filter P xs = [m] \<Longrightarrow> i < length xs \<Longrightarrow> xs ! i = m \<Longrightarrow> P m' \<Longrightarrow> filter P (xs[i := m']) = [m']"
proof (induction xs arbitrary: i)
  case Nil
  then show ?case by simp
next
  case (Cons x xs)
  show ?case
  proof (cases i)
    case 0
    have "m \<in> set (filter P (x # xs))" using Cons.prems(1) by simp
    then have "P m" by (simp only: set_filter mem_Collect_eq)
    with 0 Cons.prems show ?thesis by (auto split: if_splits)
  next
    case (Suc j)
    show ?thesis
    proof (cases "P x")
      case True
      with Cons.prems have "filter P xs = []" and "x = m" by auto
      moreover have "xs ! j \<in> set xs" using Cons.prems(2) Suc by (simp add: nth_mem)
      moreover have "P (xs ! j)" using Cons.prems(3) Suc \<open>x = m\<close> True by simp
      ultimately have False by (auto simp: filter_empty_conv)
      then show ?thesis ..
    next
      case False
      with Cons.prems Suc show ?thesis using Cons.IH[of j] by simp
    qed
  qed
qed

lemma pre_save_existing:
  assumes "cls inst = c" and "pk inst = Some k" and "k \<noteq> 0"
    and "db s (c, k) = Some e"
    and "filter (\<lambda>m. object_pk m = Some k) (moderated_objects s) = [m]"
    and "mo_id m = Some i"
    and "is_not_equal_instance m inst"
  shows "fst (pre_save_handler c inst s) = None"
    and "moderated_objects (snd (pre_save_handler c inst s)) =
           (moderated_objects s)[i := m\<lparr>changed_object := \<lparr>cls = c, pk = Some k, vals = e\<rparr>\<rparr>]"
    and "db (snd (pre_save_handler c inst s)) = db s"
    and "registered_models (snd (pre_save_handler c inst s)) = registered_models s"
    and "post_save_receivers (snd (pre_save_handler c inst s)) = post_save_receivers s"
  using assms
  by (simp_all add: pre_save_handler_def truthy_def get_or_create_moderated_object_def Let_def
      default_manager_get_def ModeratedObject_objects_get_def get_single_def
      ModeratedObject_save_rows)

lemma get_single_Inr: "get_single xs = Inr m \<longleftrightarrow> xs = [m]"
  by (simp add: get_single_def split: list.splits)

lemma get_single_none: "get_single xs = Inl ObjectDoesNotExist \<longleftrightarrow> xs = []"
  by (simp add: get_single_def split: list.splits)

lemma filter_single_mem: "filter P xs = [m] \<Longrightarrow> m \<in> set xs \<and> P m"
proof -
  assume a: "filter P xs = [m]"
  have "m \<in> set (filter P xs)" by (simp add: a)
  then show ?thesis by (simp only: set_filter mem_Collect_eq)
qed

lemma get_or_create_no_row:
  "pk inst = None \<or> (\<exists>k. pk inst = Some k \<and> db s (cls inst, k) = None) \<Longrightarrow>
   fst (get_or_create_moderated_object inst s) = Inl ObjectDoesNotExist"
  by (auto simp add: get_or_create_moderated_object_def Let_def default_manager_get_def)

lemma get_or_create_row:
  assumes "pk inst = Some k" and "db s (cls inst, k) = Some v"
  shows "fst (get_or_create_moderated_object inst s) =
     (case get_single (filter (\<lambda>m. object_pk m = Some k) (moderated_objects s)) of
        Inr moderated_object \<Rightarrow>
          Inr (if is_not_equal_instance moderated_object inst
               then moderated_object\<lparr>changed_object := \<lparr>cls = cls inst, pk = Some k, vals = v\<rparr>\<rparr>
               else moderated_object)
      | Inl e \<Rightarrow>
          if e = ObjectDoesNotExist
          then Inr ((ModeratedObject_init \<lparr>cls = cls inst, pk = Some k, vals = v\<rparr>)
                      \<lparr>changed_object := \<lparr>cls = cls inst, pk = Some k, vals = v\<rparr>\<rparr>)
          else Inl e)"
  using assms
  by (simp add: get_or_create_moderated_object_def Let_def default_manager_get_def
      ModeratedObject_objects_get_def split: sum.splits)

lemma filter_append_fresh:
  assumes "\<forall>x \<in> set xs. \<not> P x" and "P y"
  shows "filter P (xs @ [y]) = [y]"
  using assms by (simp add: filter_empty_conv)

section \<open>The tables stay consistent\<close>

lemma tables_ok_cong:
  "db s' = db s \<Longrightarrow> moderated_objects s' = moderated_objects s \<Longrightarrow> pk_seq s' = pk_seq s
   \<Longrightarrow> tables_ok s' = tables_ok s"
  by (simp add: tables_ok_def record_keys_def)

lemma tables_ok_log [simp]: "tables_ok (log e s) = tables_ok s"
  by (rule tables_ok_cong) simp_all

lemma tables_ok_grow:
  assumes ok: "tables_ok s" and mos: "moderated_objects s' = moderated_objects s"
    and db: "db s' = (db s)((c, k) \<mapsto> v)" and seq: "pk_seq s \<le> pk_seq s'" "k \<le> pk_seq s'"
  shows "tables_ok s'"
proof -
  have a: "\<forall>m \<in> set (moderated_objects s). \<exists>k. object_pk m = Some k \<and> db s' (content_type m, k) \<noteq> None"
    using ok unfolding tables_ok_def db by fastforce
  have b: "\<forall>c' k'. db s' (c', k') \<noteq> None \<longrightarrow> k' \<le> pk_seq s'"
  proof (intro allI impI)
    fix c' k' assume h: "db s' (c', k') \<noteq> None"
    show "k' \<le> pk_seq s'"
    proof (cases "(c', k') = (c, k)")
      case True
      then show ?thesis using seq(2) by simp
    next
      case False
      then have "db s (c', k') \<noteq> None" using h unfolding db by (auto split: if_splits)
      then have "k' \<le> pk_seq s" using ok by (simp add: tables_ok_def del: not_None_eq)
      then show ?thesis using seq(1) by simp
    qed
  qed
  show ?thesis
    unfolding tables_ok_def record_keys_def mos
    using a b ok by (simp add: tables_ok_def record_keys_def del: not_None_eq)
qed

lemma save_base_seq:
  "pk_seq s \<le> pk_seq (snd (snd (save_base obj s)))"
  "(case pk obj of None \<Rightarrow> Suc (pk_seq s) | Some k \<Rightarrow> k) \<le> pk_seq (snd (snd (save_base obj s)))"
  by (simp_all add: save_base_def Let_def split: option.splits)

lemma tables_ok_save_base:
  assumes "tables_ok s"
  shows "tables_ok (snd (snd (save_base obj s)))"
  by (rule tables_ok_grow[OF assms _ save_base_db save_base_seq]) simp

lemma save_base_created:
  assumes ok: "tables_ok s" and cr: "fst (snd (save_base obj s))"
  shows "\<exists>k. pk (fst (save_base obj s)) = Some k \<and> db s (cls obj, k) = None
           \<and> db (snd (snd (save_base obj s))) (cls obj, k) = Some (vals obj)"
proof (cases "pk obj")
  case None
  have "db s (cls obj, Suc (pk_seq s)) = None"
  proof (rule ccontr)
    assume "db s (cls obj, Suc (pk_seq s)) \<noteq> None"
    then have "Suc (pk_seq s) \<le> pk_seq s" using ok by (simp add: tables_ok_def del: not_None_eq)
    then show False by simp
  qed
  then show ?thesis using None by (simp add: save_base_def Let_def)
next
  case (Some k)
  then show ?thesis using cr by (simp add: save_base_def)
qed

lemma save_base_inst:
  "cls (fst (save_base obj s)) = cls obj" "vals (fst (save_base obj s)) = vals obj"
  "pk (fst (save_base obj s)) \<noteq> None"
  by (simp_all add: save_base_def Let_def split: option.splits)

lemma tables_ok_record_insert:
  assumes ok: "tables_ok s" and new: "mo_id m = None"
    and k: "object_pk m = Some k" "db s (content_type m, k) \<noteq> None"
    and fresh: "(content_type m, Some k) \<notin> set (record_keys s)"
  shows "tables_ok (ModeratedObject_save m s)"
proof -
  let ?m = "m\<lparr>mo_id := Some (length (moderated_objects s))\<rparr>"
  have rows: "moderated_objects (ModeratedObject_save m s) = moderated_objects s @ [?m]"
    by (simp add: ModeratedObject_save_rows new)
  have keys: "record_keys (ModeratedObject_save m s) = record_keys s @ [(content_type m, Some k)]"
    by (simp add: record_keys_def rows k(1))
  have a: "\<forall>x \<in> set (moderated_objects s @ [?m]).
             \<exists>k. object_pk x = Some k \<and> db s (content_type x, k) \<noteq> None"
    using ok k by (simp add: tables_ok_def del: not_None_eq)
  have b: "\<forall>j < length (moderated_objects s @ [?m]). mo_id ((moderated_objects s @ [?m]) ! j) = Some j"
    using ok by (simp add: tables_ok_def nth_append less_Suc_eq)
  have c: "distinct (record_keys s @ [(content_type m, Some k)])"
    using ok fresh by (simp add: tables_ok_def)
  show ?thesis
    unfolding tables_ok_def keys rows using a b c ok
    by (simp add: tables_ok_def del: not_None_eq)
qed

lemma tables_ok_record_update:
  assumes ok: "tables_ok s" and m: "m \<in> set (moderated_objects s)"
    and same: "content_type m' = content_type m" "object_pk m' = object_pk m" "mo_id m' = mo_id m"
  shows "tables_ok (ModeratedObject_save m' s)"
proof -
  have ok1: "\<forall>x \<in> set (moderated_objects s). \<exists>k. object_pk x = Some k \<and> db s (content_type x, k) \<noteq> None"
    and ok3: "\<forall>j < length (moderated_objects s). mo_id (moderated_objects s ! j) = Some j"
    using ok unfolding tables_ok_def by blast+
  obtain i where i: "i < length (moderated_objects s)" "moderated_objects s ! i = m"
    using m unfolding in_set_conv_nth by blast
  have "mo_id (moderated_objects s ! i) = Some i" using ok3 i(1) by blast
  then have id: "mo_id m' = Some i" using same(3) i(2) by simp
  have rows: "moderated_objects (ModeratedObject_save m' s) = (moderated_objects s)[i := m']"
    by (simp add: ModeratedObject_save_rows id)
  have "record_keys s ! i = (content_type m', object_pk m')"
    using i same by (simp add: record_keys_def)
  then have "(record_keys s)[i := (content_type m', object_pk m')] = record_keys s"
    by (metis list_update_id)
  then have keys: "record_keys (ModeratedObject_save m' s) = record_keys s"
    by (simp add: record_keys_def rows map_update)
  have sub: "set ((moderated_objects s)[i := m']) \<subseteq> insert m' (set (moderated_objects s))"
    by (rule set_update_subset_insert)
  have m': "\<exists>k. object_pk m' = Some k \<and> db s (content_type m', k) \<noteq> None"
    using ok1 m same(1,2) by simp
  have a: "\<forall>x \<in> set ((moderated_objects s)[i := m']).
             \<exists>k. object_pk x = Some k \<and> db s (content_type x, k) \<noteq> None"
    using sub m' ok1 by blast
  have b: "\<forall>j < length (moderated_objects s). mo_id ((moderated_objects s)[i := m'] ! j) = Some j"
  proof (intro allI impI)
    fix j assume j: "j < length (moderated_objects s)"
    show "mo_id ((moderated_objects s)[i := m'] ! j) = Some j"
    proof (cases "j = i")
      case True
      then show ?thesis using id j by simp
    next
      case False
      then show ?thesis using ok3 j by simp
    qed
  qed
  have c: "distinct (record_keys s)" "\<forall>c k. db s (c, k) \<noteq> None \<longrightarrow> k \<le> pk_seq s"
    using ok unfolding tables_ok_def by blast+
  show ?thesis
    unfolding tables_ok_def keys rows using a b c by (simp del: not_None_eq)
qed

lemma get_or_create_result:
  assumes g: "fst (get_or_create_moderated_object inst s) = Inr mo"
  shows "(\<exists>m \<in> set (moderated_objects s).
            content_type mo = content_type m \<and> object_pk mo = object_pk m \<and> mo_id mo = mo_id m)
         \<or> (mo_id mo = None \<and>
             (\<exists>k. object_pk mo = Some k \<and> db s (content_type mo, k) \<noteq> None
                  \<and> (content_type mo, Some k) \<notin> set (record_keys s)))"
proof -
  have no: "\<not> (pk inst = None \<or> (\<exists>k. pk inst = Some k \<and> db s (cls inst, k) = None))"
  proof
    assume "pk inst = None \<or> (\<exists>k. pk inst = Some k \<and> db s (cls inst, k) = None)"
    then have "fst (get_or_create_moderated_object inst s) = Inl ObjectDoesNotExist"
      by (rule get_or_create_no_row)
    then show False using g by simp
  qed
  then obtain k where k: "pk inst = Some k" by (cases "pk inst") blast+
  obtain v where row: "db s (cls inst, k) = Some v"
    using no k by (cases "db s (cls inst, k)") blast+
  let ?f = "filter (\<lambda>m. object_pk m = Some k) (moderated_objects s)"
  note eq = g[unfolded get_or_create_row[OF k row]]
  show ?thesis
  proof (cases "get_single ?f")
    case (Inl e)
    have e: "e = ObjectDoesNotExist"
      using eq unfolding Inl by (simp split: if_splits)
    have mo: "mo = (ModeratedObject_init \<lparr>cls = cls inst, pk = Some k, vals = v\<rparr>)
                        \<lparr>changed_object := \<lparr>cls = cls inst, pk = Some k, vals = v\<rparr>\<rparr>"
      using eq unfolding Inl e by simp
    have "?f = []" using Inl unfolding e by (simp only: get_single_none)
    then have "\<forall>m \<in> set (moderated_objects s). object_pk m \<noteq> Some k"
      by (simp only: filter_empty_conv) 
    then have "(cls inst, Some k) \<notin> set (record_keys s)"
      unfolding record_keys_def by auto
    then show ?thesis using row by (simp add: mo ModeratedObject_init_def)
  next
    case (Inr m)
    then have "?f = [m]" by (simp only: get_single_Inr)
    then have "m \<in> set (moderated_objects s)" using filter_single_mem by fast
    moreover have "mo = (if is_not_equal_instance m inst
               then m\<lparr>changed_object := \<lparr>cls = cls inst, pk = Some k, vals = v\<rparr>\<rparr>
               else m)"
      using eq unfolding Inr by simp
    then have "content_type mo = content_type m \<and> object_pk mo = object_pk m \<and> mo_id mo = mo_id m"
      by simp
    ultimately show ?thesis by blast
  qed
qed

lemma tables_ok_get_or_create:
  "tables_ok (snd (get_or_create_moderated_object inst s)) = tables_ok s"
  by (rule tables_ok_cong) simp_all

lemma record_keys_get_or_create:
  "record_keys (snd (get_or_create_moderated_object inst s)) = record_keys s"
  by (simp add: record_keys_def)

lemma tables_ok_pre_save:
  assumes ok: "tables_ok s"
  shows "tables_ok (snd (pre_save_handler c inst s))"
proof (cases "truthy (pk inst)")
  case False
  then show ?thesis using ok by (simp add: pre_save_handler_unfold)
next
  case True
  let ?s1 = "snd (get_or_create_moderated_object inst s)"
  have ok1: "tables_ok ?s1" using ok by (simp only: tables_ok_get_or_create)
  show ?thesis
  proof (cases "fst (get_or_create_moderated_object inst s)")
    case (Inl e)
    then show ?thesis using True ok1 by (simp add: pre_save_handler_unfold)
  next
    case (Inr mo)
    have res: "snd (pre_save_handler c inst s) = ModeratedObject_save mo ?s1"
      using True Inr by (simp add: pre_save_handler_unfold)
    from get_or_create_result[OF Inr]
    show ?thesis
    proof
      assume "\<exists>m \<in> set (moderated_objects s).
            content_type mo = content_type m \<and> object_pk mo = object_pk m \<and> mo_id mo = mo_id m"
      then obtain m where m: "m \<in> set (moderated_objects s)"
        "content_type mo = content_type m" "object_pk mo = object_pk m" "mo_id mo = mo_id m"
        by blast
      have m1: "m \<in> set (moderated_objects ?s1)" using m(1) by simp
      show ?thesis unfolding res by (rule tables_ok_record_update[OF ok1 m1 m(2,3,4)])
    next
      assume "mo_id mo = None \<and>
             (\<exists>k. object_pk mo = Some k \<and> db s (content_type mo, k) \<noteq> None
                  \<and> (content_type mo, Some k) \<notin> set (record_keys s))"
      then obtain k where k: "mo_id mo = None" "object_pk mo = Some k"
        "db s (content_type mo, k) \<noteq> None" "(content_type mo, Some k) \<notin> set (record_keys s)"
        by blast
      have k3: "db ?s1 (content_type mo, k) \<noteq> None" using k(3) by (simp del: not_None_eq)
      have k4: "(content_type mo, Some k) \<notin> set (record_keys ?s1)"
        using k(4) by (simp add: record_keys_get_or_create)
      show ?thesis unfolding res by (rule tables_ok_record_insert[OF ok1 k(1,2) k3 k4])
    qed
  qed
qed

lemma tables_ok_inform_moderator:
  "tables_ok (snd (inform_moderator mi x s)) = tables_ok s"
  by (rule tables_ok_cong) simp_all

lemma tables_ok_post_save:
  assumes ok: "tables_ok s"
    and fresh: "created \<Longrightarrow> (c, pk inst) \<notin> set (record_keys s)"
  shows "tables_ok (snd (post_save_handler c inst created s))"
proof (cases "registered_models s c")
  case None
  then show ?thesis using ok by (simp add: post_save_handler_def)
next
  case (Some mi)
  show ?thesis
  proof (cases created)
    case True
    show ?thesis
    proof (cases "fst (default_manager_get c (pk inst) s)")
      case (Inl e)
      then show ?thesis using ok Some True
        by (simp add: post_save_handler_unfold)
    next
      case (Inr old_object)
      then obtain k v where k: "pk inst = Some k" and row: "db s (c, k) = Some v"
        and old: "old_object = \<lparr>cls = c, pk = Some k, vals = v\<rparr>"
        by (auto simp: default_manager_get_def split: option.splits)
      let ?s1 = "log (EntityGet c (pk inst)) s"
      have res: "snd (post_save_handler c inst created s) =
          snd (inform_moderator mi inst (ModeratedObject_save (ModeratedObject_init old_object) ?s1))"
        using Some True Inr by (simp add: post_save_handler_unfold)
      have ok1: "tables_ok ?s1" using ok by simp
      have "tables_ok (ModeratedObject_save (ModeratedObject_init old_object) ?s1)"
      proof (rule tables_ok_record_insert[OF ok1])
        show "mo_id (ModeratedObject_init old_object) = None" by (simp add: ModeratedObject_init_def)
        show "object_pk (ModeratedObject_init old_object) = Some k"
          by (simp add: ModeratedObject_init_def old)
        show "db ?s1 (content_type (ModeratedObject_init old_object), k) \<noteq> None"
          using row by (simp add: ModeratedObject_init_def old)
        show "(content_type (ModeratedObject_init old_object), Some k) \<notin> set (record_keys ?s1)"
          using fresh[OF True] k by (simp add: ModeratedObject_init_def old record_keys_def)
      qed
      then show ?thesis unfolding res by (simp only: tables_ok_inform_moderator)
    qed
  next
    case False
    let ?s1 = "log (RecordGet (pk inst)) s"
    have ok1: "tables_ok ?s1" using ok by simp
    show ?thesis
    proof (cases "get_single (filter (\<lambda>m. object_pk m = pk inst) (moderated_objects s))")
      case (Inl e)
      then show ?thesis using ok1 Some False
        by (simp add: post_save_handler_unfold)
    next
      case (Inr m)
      show ?thesis
      proof (cases "is_not_equal_instance m inst")
        case ne: False
        then show ?thesis using ok1 Some False Inr
          by (simp add: post_save_handler_unfold)
      next
        case ne: True
        let ?s2 = "snd (snd (save_base (changed_object m) ?s1))"
        let ?m' = "m\<lparr>changed_object := copy_model_instance inst,
                      moderation_status := MODERATION_STATUS_PENDING\<rparr>"
        have res: "snd (post_save_handler c inst created s) =
            snd (inform_moderator mi inst (ModeratedObject_save ?m' ?s2))"
          using Some False Inr ne
          by (simp add: post_save_handler_unfold)
        have ok2: "tables_ok ?s2" by (rule tables_ok_save_base[OF ok1])
        have "filter (\<lambda>m. object_pk m = pk inst) (moderated_objects s) = [m]"
          using Inr by (simp only: get_single_Inr)
        then have "m \<in> set (moderated_objects s)" using filter_single_mem by fast
        then have m2: "m \<in> set (moderated_objects ?s2)" by simp
        have "tables_ok (ModeratedObject_save ?m' ?s2)"
          by (rule tables_ok_record_update[OF ok2 m2]) simp_all
        then show ?thesis unfolding res by (simp only: tables_ok_inform_moderator)
      qed
    qed
  qed
qed

lemma record_keys_frame:
  "moderated_objects s' = moderated_objects s \<Longrightarrow> record_keys s' = record_keys s"
  by (simp add: record_keys_def)

lemma tables_ok_record_key_row:
  assumes ok: "tables_ok s" and key: "(c, Some k) \<in> set (record_keys s)"
  shows "db s (c, k) \<noteq> None"
proof -
  obtain m where m: "m \<in> set (moderated_objects s)" "content_type m = c" "object_pk m = Some k"
    using key unfolding record_keys_def by auto
  have "\<exists>k. object_pk m = Some k \<and> db s (content_type m, k) \<noteq> None"
    using ok m(1) unfolding tables_ok_def by blast
  then show ?thesis using m(2,3) by simp
qed

lemma tables_ok_send_pre_save:
  "tables_ok s \<Longrightarrow> tables_ok (snd (send_pre_save inst s))"
  by (simp add: send_pre_save_def tables_ok_pre_save)

lemma pre_save_rows_db:
  "db (snd (pre_save_handler c inst s)) = db s"
  "pk_seq (snd (pre_save_handler c inst s)) = pk_seq s"
  by (simp_all add: pre_save_handler_unfold split: sum.splits)

lemma tables_ok_model_save:
  assumes ok: "tables_ok s"
  shows "tables_ok (snd (model_save inst s))"
proof (cases "fst (send_pre_save inst s) = None")
  case False
  then show ?thesis using ok by (simp add: model_save_unfold tables_ok_send_pre_save)
next
  case True
  define s1 where "s1 = snd (send_pre_save inst s)"
  define inst' where "inst' = fst (save_base inst s1)"
  define created where "created = fst (snd (save_base inst s1))"
  define s2 where "s2 = snd (snd (save_base inst s1))"
  have ok1: "tables_ok s1" unfolding s1_def by (rule tables_ok_send_pre_save[OF ok])
  have ok2: "tables_ok s2" unfolding s2_def by (rule tables_ok_save_base[OF ok1])
  have ms: "model_save inst s = send_post_save inst' created s2"
    using True by (simp add: model_save_unfold s1_def inst'_def created_def s2_def)
  have fresh: "(cls inst', pk inst') \<notin> set (record_keys s2)" if cr: created
  proof
    assume a: "(cls inst', pk inst') \<in> set (record_keys s2)"
    obtain k where k: "pk inst' = Some k" "db s1 (cls inst, k) = None"
      using save_base_created[OF ok1, of inst] cr unfolding created_def inst'_def by blast
    have "record_keys s2 = record_keys s1" unfolding s2_def by (rule record_keys_frame) simp
    then have "(cls inst, Some k) \<in> set (record_keys s1)"
      using a k(1) by (simp add: inst'_def save_base_inst)
    then have "db s1 (cls inst, k) \<noteq> None" by (rule tables_ok_record_key_row[OF ok1])
    then show False using k(2) by simp
  qed
  show ?thesis
  proof (cases "cls inst' \<in> set (post_save_receivers s2)")
    case False
    then show ?thesis using ok2 by (simp add: ms send_post_save_def)
  next
    case True
    have "tables_ok (snd (post_save_handler (cls inst') inst' created s2))"
      by (rule tables_ok_post_save[OF ok2 fresh])
    then show ?thesis using True by (simp add: ms send_post_save_def)
  qed
qed

lemma add_managers_frame:
  "db (add_managers c ms s) = db s \<and> moderated_objects (add_managers c ms s) = moderated_objects s
   \<and> pk_seq (add_managers c ms s) = pk_seq s"
  by (induction c ms s rule: add_managers.induct) (simp_all add: add_to_class_def)

lemma register_frame:
  "db (snd (register c mc s)) = db s" "moderated_objects (snd (register c mc s)) = moderated_objects s"
  "pk_seq (snd (register c mc s)) = pk_seq s"
  by (simp_all add: register_def Let_def connect_signals_def and_fields_to_model_class_def
      add_moderated_object_to_class_def add_to_class_def add_managers_frame)

lemma tables_ok_register: "tables_ok (snd (register c mc s)) = tables_ok s"
  by (rule tables_ok_cong) (simp_all add: register_frame)

lemma tables_ok_init: "tables_ok ModerationManager_init"
  by (simp add: tables_ok_def ModerationManager_init_def record_keys_def)

lemma reachable_tables_ok: "reachable s \<Longrightarrow> tables_ok s"
proof (induction rule: reachable.induct)
  case reachable_init
  show ?case by (rule tables_ok_init)
next
  case (reachable_register s model_class moderator_class)
  then show ?case by (simp only: tables_ok_register)
next
  case (reachable_save s inst)
  from reachable_save.IH show ?case by (rule tables_ok_model_save)
qed

lemma deny_matches_iff: "deny_matches rules ctx \<longleftrightarrow> (\<exists>r \<in> set rules. is_deny r \<and> matches r ctx)"
  by (induction rules) auto

lemma allow_matches_iff: "allow_matches rules ctx \<longleftrightarrow> (\<exists>r \<in> set rules. \<not> is_deny r \<and> matches r ctx)"
  by (induction rules) auto


section \<open>The signal round of the inner save\<close>

text \<open>
  The save signals that the framework sends for \<^verbatim>\<open>moderated_object.changed_object.save()\<close>
  reach the two handlers with the record's own snapshot as the instance. Neither handler
  changes a row of either table then: the pre-save handler saves the record back as it
  is, and the post-save handler finds nothing to do.
\<close>

lemma get_or_create_Inr_row:
  assumes g: "fst (get_or_create_moderated_object inst s) = Inr mo"
  shows "\<exists>k v. pk inst = Some k \<and> db s (cls inst, k) = Some v"
proof -
  have no: "\<not> (pk inst = None \<or> (\<exists>k. pk inst = Some k \<and> db s (cls inst, k) = None))"
  proof
    assume "pk inst = None \<or> (\<exists>k. pk inst = Some k \<and> db s (cls inst, k) = None)"
    then have "fst (get_or_create_moderated_object inst s) = Inl ObjectDoesNotExist"
      by (rule get_or_create_no_row)
    then show False using g by simp
  qed
  then obtain k where k: "pk inst = Some k" by (cases "pk inst") blast+
  obtain v where "db s (cls inst, k) = Some v"
    using no k by (cases "db s (cls inst, k)") blast+
  then show ?thesis using k by blast
qed

lemma inner_save_round_idle:
  assumes rec: "filter (\<lambda>r. object_pk r = pk (changed_object m)) (moderated_objects s) = [m]"
    and id: "mo_id m = Some i" "moderated_objects s ! i = m"
  shows "moderated_objects (snd (pre_save_handler c (changed_object m) s)) = moderated_objects s"
    and "db (snd (pre_save_handler c (changed_object m) s)) = db s"
    and "moderated_objects (snd (post_save_handler c (changed_object m) False s)) = moderated_objects s"
    and "db (snd (post_save_handler c (changed_object m) False s)) = db s"
proof -
  have eq: "\<not> is_not_equal_instance m (changed_object m)"
    by (simp add: is_not_equal_instance_def)
  have upd: "(moderated_objects s)[i := m] = moderated_objects s"
    using id(2) by (metis list_update_id)
  show "db (snd (pre_save_handler c (changed_object m) s)) = db s"
    by (rule pre_save_rows_db)
  show "moderated_objects (snd (pre_save_handler c (changed_object m) s)) = moderated_objects s"
  proof (cases "fst (get_or_create_moderated_object (changed_object m) s)")
    case (Inl e)
    then show ?thesis by (simp add: pre_save_handler_unfold)
  next
    case (Inr mo)
    obtain k v where k: "pk (changed_object m) = Some k"
      and row: "db s (cls (changed_object m), k) = Some v"
      using get_or_create_Inr_row[OF Inr] by blast
    have "mo = m"
      using Inr rec eq unfolding get_or_create_row[OF k row] k by (simp add: get_single_def)
    then show ?thesis using Inr id(1) upd by (simp add: pre_save_handler_unfold ModeratedObject_save_rows)
  qed
  show "moderated_objects (snd (post_save_handler c (changed_object m) False s)) = moderated_objects s"
    using rec eq by (simp add: post_save_handler_unfold get_single_def split: option.splits)
  show "db (snd (post_save_handler c (changed_object m) False s)) = db s"
    using rec eq by (simp add: post_save_handler_unfold get_single_def split: option.splits)
qed

section \<open>Registration\<close>

text \<open>
  C7. Registering a model class that is already in the registry raises
  \<^verbatim>\<open>RegistrationError\<close> and leaves the whole state as it was: the registry, the attributes
  of the model class and the connected signal receivers.
\<close>

theorem register_duplicate_unchanged:
  assumes "registered_models s model_class = Some m"
  shows "register model_class moderator_class s = (Some RegistrationError, s)"
  using assms by (simp add: register_def)

theorem register_duplicate_unchanged_witness:
  "registered_models registered_state ''Entry''
     = Some (moderator_init GenericModerator ''Entry'' ModerationManager_init)
   \<and> register ''Entry'' None registered_state = (Some RegistrationError, registered_state)"
proof -
  have h: "registered_models registered_state ''Entry''
     = Some (moderator_init GenericModerator ''Entry'' ModerationManager_init)"
    by (simp add: registered_state_def register_def ModerationManager_init_def
        GenericModerator_def Let_def and_fields_to_model_class_def
        add_moderated_object_to_class_def add_to_class_def connect_signals_def
        moderator_init_def get_base_managers_def get_base_manager_def)
  show ?thesis
    using h register_duplicate_unchanged [OF h, of None] by simp
qed

section \<open>The pre-save handler\<close>

text \<open>
  C10. For an instance whose primary key is unset the pre-save handler does nothing: it
  raises nothing and the state, with its trace of reads and writes, is unchanged.
\<close>

theorem pre_save_handler_unset_pk:
  assumes "pk inst = None"
  shows "pre_save_handler sender inst s = (None, s)"
  using assms by (simp add: pre_save_handler_def truthy_def)

theorem pre_save_handler_unset_pk_witness:
  "pk entry_new = None
   \<and> pre_save_handler ''Entry'' entry_new registered_state = (None, registered_state)"
proof -
  have h: "pk entry_new = None" by (simp add: entry_new_def)
  show ?thesis
    using h pre_save_handler_unset_pk [OF h, of "''Entry''" registered_state] by simp
qed

section \<open>The post-save handler at creation\<close>

text \<open>
  C2, as the code has it. The handler receives the sender, the instance and the flag
  \<open>created\<close>, and no acting context; it evaluates no auto-approval rule. For a creation
  (\<open>created\<close> true) in a registered class it appends one \<^verbatim>\<open>ModeratedObject\<close> with status
  Pending whose \<open>changed_object\<close> holds the values just written, and calls
  \<^verbatim>\<open>inform_moderator\<close> once. The mail goes out when the option \<^verbatim>\<open>notify_moderator\<close> of the
  moderator is set (and the record can be read back), whatever the status.
\<close>

theorem post_save_created:
  assumes "registered_models s sender = Some mi" and "pk inst = Some k"
    and "db s (sender, k) = Some (vals inst)"
  shows "moderated_objects (snd (post_save_handler sender inst True s)) =
           moderated_objects s @
             [\<lparr>mo_id = Some (length (moderated_objects s)), content_type = sender,
               object_pk = Some k, changed_object = \<lparr>cls = sender, pk = Some k, vals = vals inst\<rparr>,
               moderation_status = MODERATION_STATUS_PENDING\<rparr>]
         \<and> informs (snd (post_save_handler sender inst True s)) = informs s @ [inst]
         \<and> mails (snd (post_save_handler sender inst True s)) =
             (if notify_moderator (options mi) \<and> fst (post_save_handler sender inst True s) = None
              then mails s @ [inst] else mails s)"
  using assms
  by (simp add: post_save_handler_unfold default_manager_get_def
      ModeratedObject_save_rows ModeratedObject_init_def inform_moderator_mails)

theorem post_save_created_witness:
  "moderated_objects
     (snd (post_save_handler ''Entry'' entry_stored True (snd (snd (save_base entry_new registered_state)))))
     = [\<lparr>mo_id = Some 0, content_type = ''Entry'', object_pk = Some 1,
         changed_object = entry_stored, moderation_status = MODERATION_STATUS_PENDING\<rparr>]
   \<and> informs
     (snd (post_save_handler ''Entry'' entry_stored True (snd (snd (save_base entry_new registered_state)))))
     = [entry_stored]
   \<and> mails
     (snd (post_save_handler ''Entry'' entry_stored True (snd (snd (save_base entry_new registered_state)))))
     = [entry_stored]"
proof -
  let ?s = "snd (snd (save_base entry_new registered_state))"
  let ?mi = "moderator_init GenericModerator ''Entry'' ModerationManager_init"
  have h1: "registered_models ?s ''Entry'' = Some ?mi" by code_simp
  have h2: "pk entry_stored = Some 1" by code_simp
  have h3: "db ?s (''Entry'', 1) = Some (vals entry_stored)" by code_simp
  have e1: "moderated_objects registered_state = []" by code_simp
  have e2: "informs registered_state = []" by code_simp
  have e3: "mails registered_state = []" by code_simp
  have e4: "notify_moderator (options ?mi)" by code_simp
  have e5: "fst (post_save_handler ''Entry'' entry_stored True ?s) = None" by code_simp
  have e6: "\<lparr>cls = ''Entry'', pk = Some (Suc 0), vals = vals entry_stored\<rparr> = entry_stored"
    by code_simp
  show ?thesis
    using post_save_created [OF h1 h2 h3] by (simp add: e1 e2 e3 e4 e5 e6)
qed

text \<open>
  The claim C2 as stated fails where the moderator mail is turned off: the new record is
  Pending, also for a staff actor whom the auto-approve rule of the moderator accepts,
  and no notification is dispatched.
\<close>

theorem creation_pending_without_mail:
  "auto_approval (rule_set (GenericModerator\<lparr>notify_moderator := False\<rparr>))
      \<lparr>is_staff = True, groups = []\<rparr> = MODERATION_STATUS_APPROVED
   \<and> fst (post_save_handler ''Entry'' entry_stored True (snd (snd (save_base entry_new silent_state)))) = None
   \<and> map moderation_status (moderated_objects
        (snd (post_save_handler ''Entry'' entry_stored True (snd (snd (save_base entry_new silent_state))))))
      = [MODERATION_STATUS_PENDING]
   \<and> mails (snd (post_save_handler ''Entry'' entry_stored True (snd (snd (save_base entry_new silent_state)))))
      = []"
  by code_simp

text \<open>
  C3, as the code has it. A creation write of an instance of a registered class whose
  moderator has \<^verbatim>\<open>notify_moderator\<close> set (the default) succeeds, stores one new record
  with status Pending whose \<open>changed_object\<close> is the written instance, and sends one
  moderator mail. No actor enters the write, so this holds for an actor who satisfies
  an auto-approve rule as for any other.
\<close>

theorem model_save_create_pending:
  assumes r: "reachable s" and k: "pk inst = None"
    and reg: "registered_models s (cls inst) = Some mi"
    and post: "cls inst \<in> set (post_save_receivers s)"
    and notify: "notify_moderator (options mi)"
  shows "fst (model_save inst s) = None
       \<and> moderated_objects (snd (model_save inst s)) =
           moderated_objects s @
             [\<lparr>mo_id = Some (length (moderated_objects s)), content_type = cls inst,
               object_pk = Some (Suc (pk_seq s)),
               changed_object = inst\<lparr>pk := Some (Suc (pk_seq s))\<rparr>,
               moderation_status = MODERATION_STATUS_PENDING\<rparr>]
       \<and> mails (snd (model_save inst s)) = mails s @ [inst\<lparr>pk := Some (Suc (pk_seq s))\<rparr>]"
proof -
  define k' where "k' = Suc (pk_seq s)"
  define inst' where "inst' = inst\<lparr>pk := Some k'\<rparr>"
  define s2 where "s2 = snd (snd (save_base inst s))"
  define new where "new = \<lparr>mo_id = Some (length (moderated_objects s)), content_type = cls inst,
               object_pk = Some k', changed_object = inst', moderation_status = MODERATION_STATUS_PENDING\<rparr>"
  have ok: "tables_ok s" by (rule reachable_tables_ok[OF r])
  have pre: "send_pre_save inst s = (None, s)"
    using k by (simp add: send_pre_save_def pre_save_handler_unfold truthy_def)
  have sb: "fst (save_base inst s) = inst'" "fst (snd (save_base inst s)) = True"
    using k by (simp_all add: save_base_def Let_def inst'_def k'_def)
  have ms: "model_save inst s = post_save_handler (cls inst) inst' True s2"
    using post by (simp add: model_save_unfold pre sb send_post_save_def s2_def inst'_def)
  have db2: "db s2 (cls inst, k') = Some (vals inst')"
    using k by (simp add: s2_def save_base_db k'_def inst'_def)
  have reg2: "registered_models s2 (cls inst) = Some mi" using reg by (simp add: s2_def)
  have pk': "pk inst' = Some k'" by (simp add: inst'_def)
  have row: "\<lparr>cls = cls inst, pk = Some k', vals = vals inst'\<rparr> = inst'"
    by (cases inst) (simp add: inst'_def)
  note c = post_save_handler_created[OF reg2 pk' db2, unfolded row]
  have rows: "moderated_objects (snd (model_save inst s)) = moderated_objects s @ [new]"
    using c by (simp add: ms new_def s2_def)
  have none: "\<forall>m \<in> set (moderated_objects s). \<not> (content_type m = cls inst' \<and> object_pk m = pk inst')"
  proof
    fix m assume m: "m \<in> set (moderated_objects s)"
    show "\<not> (content_type m = cls inst' \<and> object_pk m = pk inst')"
    proof
      assume a: "content_type m = cls inst' \<and> object_pk m = pk inst'"
      then have "(cls inst, Some k') \<in> set (record_keys s)"
        using m by (force simp add: record_keys_def inst'_def)
      then have "db s (cls inst, k') \<noteq> None" by (rule tables_ok_record_key_row[OF ok])
      then have "k' \<le> pk_seq s" using ok unfolding tables_ok_def by blast
      then show False by (simp add: k'_def)
    qed
  qed
  have one: "filter (\<lambda>m. content_type m = cls inst' \<and> object_pk m = pk inst')
               (moderated_objects s @ [new]) = [new]"
    by (rule filter_append_fresh[OF none]) (simp add: new_def inst'_def)
  have ph: "post_save_handler (cls inst) inst' True s2 =
      inform_moderator mi inst'
        (ModeratedObject_save (ModeratedObject_init inst') (log (EntityGet (cls inst) (Some k')) s2))"
    using reg2 db2 pk' by (simp add: post_save_handler_unfold default_manager_get_def row)
  have rws: "moderated_objects
      (ModeratedObject_save (ModeratedObject_init inst') (log (EntityGet (cls inst) (Some k')) s2)) =
      moderated_objects s @ [new]"
    by (simp add: ModeratedObject_save_rows ModeratedObject_init_def new_def s2_def inst'_def)
  have fst_ok: "fst (model_save inst s) = None"
    unfolding ms ph inform_moderator_ok rws using one by blast
  have m2: "mails s2 = mails s" by (simp add: s2_def)
  have "mails (snd (post_save_handler (cls inst) inst' True s2)) = mails s2 @ [inst']"
    using c fst_ok[unfolded ms] notify by simp
  then have "mails (snd (model_save inst s)) = mails s @ [inst']"
    by (simp only: ms m2)
  then show ?thesis using fst_ok rows by (simp add: new_def inst'_def k'_def)
qed

theorem model_save_create_pending_witness:
  "reachable registered_state
   \<and> fst (model_save entry_new registered_state) = None
   \<and> moderated_objects (snd (model_save entry_new registered_state)) =
       [\<lparr>mo_id = Some 0, content_type = ''Entry'', object_pk = Some 1,
         changed_object = entry_stored, moderation_status = MODERATION_STATUS_PENDING\<rparr>]
   \<and> mails (snd (model_save entry_new registered_state)) = [entry_stored]"
proof -
  let ?mi = "moderator_init GenericModerator ''Entry'' ModerationManager_init"
  have h1: "reachable registered_state"
    unfolding registered_state_def by (intro reachable.intros)
  have h2: "pk entry_new = None" by code_simp
  have h3: "registered_models registered_state (cls entry_new) = Some ?mi" by code_simp
  have h4: "cls entry_new \<in> set (post_save_receivers registered_state)" by code_simp
  have h5: "notify_moderator (options ?mi)" by code_simp
  have e1: "moderated_objects registered_state = []" by code_simp
  have e2: "mails registered_state = []" by code_simp
  have e3: "pk_seq registered_state = 0" by code_simp
  have e4: "cls entry_new = ''Entry''" by code_simp
  have e5: "entry_new\<lparr>pk := Some (Suc 0)\<rparr> = entry_stored" by code_simp
  show ?thesis
    using h1 model_save_create_pending [OF h1 h2 h3 h4 h5] by (simp add: e1 e2 e3 e4 e5)
qed

text \<open>
  The claim C3 as stated fails for the default moderator: a staff actor satisfies its
  auto-approve rule, and the creation write still leaves the record Pending and sends the
  moderator mail.
\<close>

theorem staff_creation_pending_with_mail:
  "auto_approval (rule_set GenericModerator) \<lparr>is_staff = True, groups = []\<rparr>
     = MODERATION_STATUS_APPROVED
   \<and> map moderation_status (moderated_objects (snd (model_save entry_new registered_state)))
     = [MODERATION_STATUS_PENDING]
   \<and> mails (snd (model_save entry_new registered_state)) = [entry_stored]"
  by code_simp

section \<open>The post-save handler at an update\<close>

text \<open>
  C4. The snapshot captured before the write is where the pre-save handler stored it, in
  \<open>changed_object\<close> of the instance's \<^verbatim>\<open>ModeratedObject\<close>. For an update (\<open>created\<close>
  false) whose written instance differs field-wise from that snapshot, the post-save
  handler writes the snapshot back to the instance's row, stores a copy of the written
  instance as the new \<open>changed_object\<close>, sets the status to Pending, and calls
  \<^verbatim>\<open>inform_moderator\<close> for the instance.
\<close>

theorem post_save_changed:
  assumes "registered_models s sender = Some mi"
    and "filter (\<lambda>m. object_pk m = pk inst) (moderated_objects s) = [m]"
    and "mo_id m = Some i"
    and "is_not_equal_instance m inst"
    and "cls (changed_object m) = sender" and "pk (changed_object m) = Some k"
    and "pk inst = Some k"
  shows "db (snd (post_save_handler sender inst False s)) (sender, k) = Some (vals (changed_object m))
       \<and> moderated_objects (snd (post_save_handler sender inst False s)) =
           (moderated_objects s)[i := m\<lparr>changed_object := copy_model_instance inst,
                                         moderation_status := MODERATION_STATUS_PENDING\<rparr>]
       \<and> informs (snd (post_save_handler sender inst False s)) = informs s @ [inst]"
  using assms
  by (simp add: post_save_handler_unfold get_single_def ModeratedObject_save_rows save_base_db)

theorem post_save_changed_witness:
  "is_not_equal_instance
     \<lparr>mo_id = Some 0, content_type = ''Entry'', object_pk = Some 1,
      changed_object = entry_stored, moderation_status = MODERATION_STATUS_PENDING\<rparr> entry_edit
   \<and> db (snd (post_save_handler ''Entry'' entry_edit False
              (snd (snd (save_base entry_edit created_state))))) (''Entry'', 1)
       = Some [(''title'', ''first'')]
   \<and> moderated_objects (snd (post_save_handler ''Entry'' entry_edit False
              (snd (snd (save_base entry_edit created_state)))))
       = [\<lparr>mo_id = Some 0, content_type = ''Entry'', object_pk = Some 1,
           changed_object = entry_edit, moderation_status = MODERATION_STATUS_PENDING\<rparr>]
   \<and> informs (snd (post_save_handler ''Entry'' entry_edit False
              (snd (snd (save_base entry_edit created_state)))))
       = [entry_stored, entry_edit]"
proof -
  let ?s = "snd (snd (save_base entry_edit created_state))"
  let ?mi = "moderator_init GenericModerator ''Entry'' ModerationManager_init"
  let ?m = "\<lparr>mo_id = Some 0, content_type = ''Entry'', object_pk = Some 1,
      changed_object = entry_stored, moderation_status = MODERATION_STATUS_PENDING\<rparr>"
  have h1: "registered_models ?s ''Entry'' = Some ?mi" by code_simp
  have h2: "filter (\<lambda>m. object_pk m = pk entry_edit) (moderated_objects ?s) = [?m]" by code_simp
  have h3: "mo_id ?m = Some 0" by simp
  have h4: "is_not_equal_instance ?m entry_edit" by code_simp
  have h5: "cls (changed_object ?m) = ''Entry''" by code_simp
  have h6: "pk (changed_object ?m) = Some 1" by code_simp
  have h7: "pk entry_edit = Some 1" by code_simp
  have e1: "moderated_objects created_state = [?m]" by code_simp
  have e2: "informs created_state = [entry_stored]" by code_simp
  have e3: "vals entry_stored = [(''title'', ''first'')]" by code_simp
  have e4: "copy_model_instance entry_edit = entry_edit" by code_simp
  show ?thesis
    using h4 post_save_changed [OF h1 h2 h3 h4 h5 h6 h7] by (simp add: e1 e2 e3 e4)
qed

text \<open>
  C6, as the code has it. The post-save handler does not know whether the pre-save
  handler ran, and there is no \<^verbatim>\<open>StateError\<close>. What it checks is that a
  \<^verbatim>\<open>ModeratedObject\<close> exists: at an update of an instance of a registered class for whose
  primary key no \<^verbatim>\<open>ModeratedObject\<close> is stored, the handler raises \<^verbatim>\<open>ObjectDoesNotExist\<close>
  after the one read, and changes no table.
\<close>

theorem post_save_no_record:
  assumes "registered_models s sender = Some mi"
    and "filter (\<lambda>m. object_pk m = pk inst) (moderated_objects s) = []"
  shows "post_save_handler sender inst False s = (Some ObjectDoesNotExist, log (RecordGet (pk inst)) s)"
  using assms by (simp add: post_save_handler_unfold get_single_def)

theorem post_save_no_record_witness:
  "filter (\<lambda>m. object_pk m = pk entry_edit) (moderated_objects registered_state) = []
   \<and> post_save_handler ''Entry'' entry_edit False registered_state =
       (Some ObjectDoesNotExist, log (RecordGet (pk entry_edit)) registered_state)"
proof -
  let ?mi = "moderator_init GenericModerator ''Entry'' ModerationManager_init"
  have h1: "registered_models registered_state ''Entry'' = Some ?mi" by code_simp
  have h2: "filter (\<lambda>m. object_pk m = pk entry_edit) (moderated_objects registered_state) = []"
    by code_simp
  show ?thesis
    using h2 post_save_no_record [OF h1 h2] by simp
qed

text \<open>
  The claim C6 as stated fails where a record exists: after the row of the entry was
  written a third time without the pre-save handler, the post-save handler raises
  nothing, takes the record's stored snapshot (the pending second version) as the
  baseline, writes it to the row, and accepts the third version as the pending change.
\<close>

theorem post_save_without_pre_save_accepted:
  "fst (post_save_handler ''Entry'' entry_edit2 False (snd (snd (save_base entry_edit2 edited_state))))
     = None
   \<and> map changed_object (moderated_objects
        (snd (post_save_handler ''Entry'' entry_edit2 False (snd (snd (save_base entry_edit2 edited_state))))))
     = [entry_edit2]
   \<and> db (snd (post_save_handler ''Entry'' entry_edit2 False (snd (snd (save_base entry_edit2 edited_state)))))
        (''Entry'', 1)
     = Some (vals entry_edit)"
  by code_simp

section \<open>Writes and the moderated read\<close>




section \<open>Effects of one write\<close>




section \<open>One moderated object per instance\<close>

text \<open>
  C9, as the code has it. In every state reached from the empty manager by registrations
  and by writes through the framework (pre-save handler, row write, post-save handler with
  the flag of the row write), no two \<^verbatim>\<open>ModeratedObject\<close> rows have the same content type
  and \<open>object_pk\<close>. The pre-save handler looks for the existing row before it makes one;
  the creation branch of the post-save handler does not look.
\<close>

theorem reachable_one_record_per_key:
  assumes "reachable s"
  shows "distinct (record_keys s)"
  using reachable_tables_ok[OF assms] unfolding tables_ok_def by blast

theorem reachable_one_record_per_key_witness:
  "reachable edited_state \<and> record_keys edited_state = [(''Entry'', Some 1)]
   \<and> distinct (record_keys edited_state)"
proof -
  have h: "reachable edited_state"
    unfolding edited_state_def created_state_def registered_state_def
    by (intro reachable.intros)
  have e: "record_keys edited_state = [(''Entry'', Some 1)]" by code_simp
  show ?thesis
    using h e reachable_one_record_per_key [OF h] by simp
qed

text \<open>
  The claim C9 as stated fails for a second creation attempt: the post-save handler
  called again with \<open>created\<close> true for the stored entry adds a second row for the same
  instance.
\<close>

theorem second_creation_duplicates_record:
  "record_keys created_state = [(''Entry'', Some 1)]
   \<and> record_keys (snd (post_save_handler ''Entry'' entry_stored True created_state))
       = [(''Entry'', Some 1), (''Entry'', Some 1)]"
  by code_simp

section \<open>Deny rules win\<close>

text \<open>
  C8. In the auto-approval evaluation, a matching deny-list rule gives Pending whatever
  allow-list rules match and wherever the rules stand in the list, and so does a context
  that no rule matches.
\<close>

theorem deny_rule_forces_pending:
  "((\<exists>r \<in> set rules. is_deny r \<and> matches r ctx) \<longrightarrow>
      auto_approval rules ctx = MODERATION_STATUS_PENDING)
   \<and> ((\<forall>r \<in> set rules. \<not> matches r ctx) \<longrightarrow>
      auto_approval rules ctx = MODERATION_STATUS_PENDING)"
  by (auto simp: auto_approval_def deny_matches_iff allow_matches_iff)

theorem deny_rule_forces_pending_witness:
  "auto_approval [AllowStaff, DenyGroups [''banned'']] \<lparr>is_staff = True, groups = [''banned'']\<rparr>
       = MODERATION_STATUS_PENDING
   \<and> auto_approval [AllowStaff, DenyGroups [''banned'']] \<lparr>is_staff = False, groups = [''authors'']\<rparr>
       = MODERATION_STATUS_PENDING"
proof -
  let ?rules = "[AllowStaff, DenyGroups [''banned'']]"
  have h1: "\<exists>r \<in> set ?rules. is_deny r \<and> matches r \<lparr>is_staff = True, groups = [''banned'']\<rparr>"
    by simp
  have h2: "\<forall>r \<in> set ?rules. \<not> matches r \<lparr>is_staff = False, groups = [''authors'']\<rparr>"
    by simp
  show ?thesis
    using h1 h2
      deny_rule_forces_pending [of ?rules "\<lparr>is_staff = True, groups = [''banned'']\<rparr>"]
      deny_rule_forces_pending [of ?rules "\<lparr>is_staff = False, groups = [''authors'']\<rparr>"]
    by blast
qed

end
